theory Spec2Isabelle
  imports Main
begin

section \<open>MeSH to OBO conversion: the notebook's code as HOL functions\<close>

text \<open>
  The notebook \<^verbatim>\<open>MeSH2OBO.ipynb\<close> reads a MeSH ASCII file twice. The first pass fills
  the global dictionary \<^verbatim>\<open>parentList\<close> (tree id to unique id); the second pass prints
  one OBO stanza per entry and asks \<^verbatim>\<open>getParent\<close> for the parent of every tree id.

  Python strings are modelled as \<open>string\<close>. The file is opened with the Latin-1 codec,
  so every character of the input is one byte and \<open>length\<close> counts what \<^verbatim>\<open>len\<close> counts.
  Exceptions are values of \<open>error\<close>; a function that may raise returns a sum, and a
  function that yields or prints before it raises returns what it produced together
  with the exception.
\<close>

subsection \<open>Exceptions\<close>

datatype error = KeyError | TypeError | IndexError

subsection \<open>Entries: \<^verbatim>\<open>defaultdict(list)\<close>\<close>

text \<open>
  An entry is a \<^verbatim>\<open>defaultdict(list)\<close> from field keys to the values seen for the key, in
  insertion order. Reading a missing key gives the empty list. (The read also stores
  the empty list under the key; no code of the notebook looks at an entry's key set
  after such a read, so the model leaves the entry as it is.)
\<close>

type_synonym entry = "(string \<times> string list) list"

definition get :: "entry \<Rightarrow> string \<Rightarrow> string list" where
  "get e k = (case map_of e k of None \<Rightarrow> [] | Some vs \<Rightarrow> vs)"

text \<open>\<^verbatim>\<open>entry[key].append(value)\<close>\<close>

fun append_value :: "string \<Rightarrow> string \<Rightarrow> entry \<Rightarrow> entry" where
  "append_value k v [] = [(k, [v])]"
| "append_value k v ((k', vs) # e) =
     (if k' = k then (k', vs @ [v]) # e else (k', vs) # append_value k v e)"

subsection \<open>The top-level terms\<close>

definition topLevelTerms :: "(string \<times> string) list" where
  "topLevelTerms =
    [(''A'', ''Anatomy''),
     (''B'', ''Organisms''),
     (''C'', ''Diseases''),
     (''D'', ''Chemicals and Drugs''),
     (''E'', ''Analytical, Diagnostic and Therapeutic Techniques, and Equipment''),
     (''F'', ''Psychiatry and Psychology''),
     (''G'', ''Phenomena and Processes''),
     (''H'', ''Disciplines and Occupations''),
     (''I'', ''Anthropology, Education, Sociology, and Social Phenomena''),
     (''J'', ''Technology, Industry, and Agriculture''),
     (''K'', ''Humanities''),
     (''L'', ''Information Science''),
     (''M'', ''Named Groups''),
     (''N'', ''Health Care''),
     (''V'', ''Publication Characteristics''),
     (''Z'', ''Geographicals'')]"

definition provideEntry :: "string \<Rightarrow> string \<Rightarrow> entry" where
  "provideEntry ident name = append_value ''MH'' name (append_value ''UI'' ident [])"

subsection \<open>String operations of Python used by the reader\<close>

text \<open>
  \<^verbatim>\<open>str.strip()\<close> removes leading and trailing whitespace. Among the 256 characters
  of Latin-1, \<^verbatim>\<open>str.isspace\<close> holds for TAB, LF, VT, FF, CR, the separators
  0x1C to 0x1F, the space, NEL (0x85) and the no-break space (0xA0).
\<close>

definition whitespace :: string where
  "whitespace = [CHR 0x09, CHR 0x0A, CHR 0x0B, CHR 0x0C, CHR 0x0D, CHR 0x1C, CHR 0x1D,
     CHR 0x1E, CHR 0x1F, CHR 0x20, CHR 0x85, CHR 0xA0]"

definition isspace :: "char \<Rightarrow> bool" where
  "isspace c = (c \<in> set whitespace)"

definition strip :: "string \<Rightarrow> string" where
  "strip s = rev (dropWhile isspace (rev (dropWhile isspace s)))"

text \<open>
  \<^verbatim>\<open>line.partition(sep)\<close>: the part before the first occurrence of \<open>sep\<close>, \<open>sep\<close>, and
  the part after it; the whole line and two empty strings when \<open>sep\<close> does not occur.
\<close>

fun find_sep :: "string \<Rightarrow> string \<Rightarrow> (string \<times> string) option" where
  "find_sep sep [] = None"
| "find_sep sep (c # cs) =
     (if take (length sep) (c # cs) = sep then Some ([], drop (length sep) (c # cs))
      else (case find_sep sep cs of None \<Rightarrow> None | Some (a, b) \<Rightarrow> Some (c # a, b)))"

definition partition_str :: "string \<Rightarrow> string \<Rightarrow> string \<times> string \<times> string" where
  "partition_str line sep =
     (case find_sep sep line of None \<Rightarrow> (line, [], []) | Some (a, b) \<Rightarrow> (a, sep, b))"

subsection \<open>\<^verbatim>\<open>readMeSH\<close>\<close>

text \<open>
  \<^verbatim>\<open>readMeSH\<close> is a generator. Its model returns the entries it yields, in order, and
  the exception that ends it, if any. \<open>scan\<close> is the loop over the lines with the loop
  variable \<^verbatim>\<open>entry\<close> (\<^verbatim>\<open>None\<close> or a dictionary); \<^verbatim>\<open>if entry:\<close> holds for a dictionary
  with at least one key. Subscripting \<^verbatim>\<open>None\<close> raises \<^verbatim>\<open>TypeError\<close>.
\<close>

definition truthy :: "entry option \<Rightarrow> bool" where
  "truthy entry = (case entry of None \<Rightarrow> False | Some e \<Rightarrow> e \<noteq> [])"

definition yield :: "entry option \<Rightarrow> entry list \<times> error option \<Rightarrow> entry list \<times> error option" where
  "yield entry r = (case entry of None \<Rightarrow> r | Some e \<Rightarrow> (e # fst r, snd r))"

fun scan :: "entry option \<Rightarrow> string list \<Rightarrow> entry list \<times> error option" where
  "scan entry [] = (if truthy entry then yield entry ([], None) else ([], None))"
| "scan entry (raw # fin) =
     (let line = strip raw in
      if line = [] then scan entry fin
      else if line = ''*NEWRECORD'' then
        (if truthy entry then yield entry (scan (Some []) fin) else scan (Some []) fin)
      else
        (case partition_str line '' = '' of (key, _, val) \<Rightarrow>
          (case entry of
             None \<Rightarrow> ([], Some TypeError)
           | Some e \<Rightarrow> scan (Some (append_value key val e)) fin)))"

definition readMeSH :: "string list \<Rightarrow> entry list \<times> error option" where
  "readMeSH fin =
     (case scan None fin of
        (es, err) \<Rightarrow> (map (\<lambda>(ident, name). provideEntry ident name) topLevelTerms @ es, err))"

subsection \<open>The tree-id map and \<^verbatim>\<open>getParent\<close>\<close>

type_synonym parent_list = "string \<rightharpoonup> string"

text \<open>
  The inner loop \<^verbatim>\<open>for tree in entry['MN']: parentList[tree] = entry['UI'][0]\<close>.
  \<^verbatim>\<open>entry['UI'][0]\<close> is evaluated once per tree id and raises \<^verbatim>\<open>IndexError\<close> when the
  entry has no \<^verbatim>\<open>UI\<close> value.
\<close>

fun build_entry :: "entry \<Rightarrow> string list \<Rightarrow> parent_list \<Rightarrow> error + parent_list" where
  "build_entry e [] parentList = Inr parentList"
| "build_entry e (tree # trees) parentList =
     (case get e ''UI'' of
        [] \<Rightarrow> Inl IndexError
      | ui # _ \<Rightarrow> build_entry e trees (parentList(tree \<mapsto> ui)))"

fun build_loop :: "entry list \<Rightarrow> parent_list \<Rightarrow> error + parent_list" where
  "build_loop [] parentList = Inr parentList"
| "build_loop (e # es) parentList =
     (case build_entry e (get e ''MN'') parentList of
        Inl err \<Rightarrow> Inl err
      | Inr parentList' \<Rightarrow> build_loop es parentList')"

text \<open>
  The first pass: the loop body runs on every entry the generator yields; an exception
  of the generator arrives after the entries yielded before it have been processed.
\<close>

definition build_parentList :: "string list \<Rightarrow> error + parent_list" where
  "build_parentList fin =
     (case readMeSH fin of
        (es, err) \<Rightarrow>
          (case build_loop es Map.empty of
             Inl e \<Rightarrow> Inl e
           | Inr parentList \<Rightarrow> (case err of None \<Rightarrow> Inr parentList | Some e \<Rightarrow> Inl e)))"

text \<open>
  \<^verbatim>\<open>re.sub('\.[^\.]+$', '', id)\<close>. The pattern is a dot, one or more characters other
  than a dot, and the end of the string. The search goes from left to right; at a dot
  the greedy class runs to the next dot or to the end of the string, so the pattern
  matches exactly at a dot that is followed by at least one character and by no further
  dot, and the match reaches the end of the string. A string without such a dot is
  returned unchanged.
\<close>

fun sub_last_segment :: "string \<Rightarrow> string" where
  "sub_last_segment [] = []"
| "sub_last_segment (c # cs) =
     (if c = CHR ''.'' \<and> cs \<noteq> [] \<and> CHR ''.'' \<notin> set cs then []
      else c # sub_last_segment cs)"

definition getParent :: "parent_list \<Rightarrow> string \<Rightarrow> error + string option" where
  "getParent parentList ident =
     (if CHR ''.'' \<in> set ident then
        (case parentList (sub_last_segment ident) of
           None \<Rightarrow> Inl KeyError
         | Some parent \<Rightarrow> Inr (Some parent))
      else if length ident = 3 then Inr (Some [ident ! 0])
      else Inr None)"

subsection \<open>Writing the OBO file\<close>

text \<open>
  \<^verbatim>\<open>re.sub('\|.*', '', syn)\<close>: every bar is removed together with what follows it up to,
  and not including, the next line feed (the dot of a Python pattern matches every
  character but the line feed).
\<close>

function sub_bar :: "string \<Rightarrow> string" where
  "sub_bar [] = []"
| "sub_bar (c # cs) =
     (if c = CHR ''|'' then sub_bar (dropWhile (\<lambda>d. d \<noteq> CHR 0x0A) cs)
      else c # sub_bar cs)"
  by pat_completeness auto
termination
  by (relation "measure length") (auto simp: length_dropWhile_le le_imp_less_Suc)

definition synonym_line :: "string \<Rightarrow> string" where
  "synonym_line syn = ''synonym: '' @ [CHR 0x22] @ sub_bar syn @ [CHR 0x22] @ '' EXACT []''"

definition synonym_lines :: "entry \<Rightarrow> string list" where
  "synonym_lines e = map synonym_line (get e ''ENTRY'')"

text \<open>
  The loop over \<^verbatim>\<open>entry['MN']\<close> with the list \<^verbatim>\<open>done\<close>. It returns the lines it printed
  and the exception that ended it, if any: \<^verbatim>\<open>KeyError\<close> from \<^verbatim>\<open>getParent\<close>, or
  \<^verbatim>\<open>TypeError\<close> from \<^verbatim>\<open>"is_a: " + parentId\<close> when \<^verbatim>\<open>parentId\<close> is \<^verbatim>\<open>None\<close>.
\<close>

definition is_a_line :: "string \<Rightarrow> string" where
  "is_a_line parentId = ''is_a: '' @ parentId"

fun is_a_loop :: "parent_list \<Rightarrow> string list \<Rightarrow> string option list \<Rightarrow> string list \<times> error option" where
  "is_a_loop parentList [] done = ([], None)"
| "is_a_loop parentList (tree # trees) done =
     (case getParent parentList tree of
        Inl err \<Rightarrow> ([], Some err)
      | Inr parentId \<Rightarrow>
          (if parentId \<notin> set done then
             (case parentId of
                None \<Rightarrow> ([], Some TypeError)
              | Some p \<Rightarrow>
                  (case is_a_loop parentList trees (done @ [parentId]) of
                     (out, err) \<Rightarrow> (is_a_line p # out, err)))
           else is_a_loop parentList trees done))"

text \<open>The body of the second loop: one stanza, or its beginning and an exception.\<close>

definition emitEntry :: "parent_list \<Rightarrow> entry \<Rightarrow> string list \<times> error option" where
  "emitEntry parentList e =
     (case get e ''UI'' of
        [] \<Rightarrow> ([''[Term]''], Some IndexError)
      | ui # _ \<Rightarrow>
          (case get e ''MH'' of
             [] \<Rightarrow> ([''[Term]'', ''id: '' @ ui], Some IndexError)
           | mh # _ \<Rightarrow>
               (case is_a_loop parentList (get e ''MN'') [] of
                  (out, err) \<Rightarrow>
                    ([''[Term]'', ''id: '' @ ui, ''name: '' @ mh] @ synonym_lines e @ out
                       @ (case err of None \<Rightarrow> [[]] | Some _ \<Rightarrow> []),
                     err))))"

fun emit_loop :: "parent_list \<Rightarrow> entry list \<Rightarrow> string list \<times> error option" where
  "emit_loop parentList [] = ([], None)"
| "emit_loop parentList (e # es) =
     (case emitEntry parentList e of
        (out, Some err) \<Rightarrow> (out, Some err)
      | (out, None) \<Rightarrow> (case emit_loop parentList es of (out', err) \<Rightarrow> (out @ out', err)))"

text \<open>
  The notebook as a whole on the lines of the input file: the lines written to the OBO
  file and the exception that stopped the run, if any. Nothing is written when the
  first pass raises.
\<close>

definition convert :: "string list \<Rightarrow> string list \<times> error option" where
  "convert fin =
     (case build_parentList fin of
        Inl e \<Rightarrow> ([], Some e)
      | Inr parentList \<Rightarrow>
          (case readMeSH fin of
             (es, err) \<Rightarrow>
               (case emit_loop parentList es of
                  (out, Some e) \<Rightarrow> (out, Some e)
                | (out, None) \<Rightarrow> (out, err))))"

subsection \<open>Specification-level notions\<close>

text \<open>
  The parent prefix of a tree id in the words of the specification: the string with its
  final dot-delimited segment stripped, that is, everything before the last dot.
\<close>

definition parent_prefix_spec :: "string \<Rightarrow> string" where
  "parent_prefix_spec s = rev (tl (dropWhile (\<lambda>c. c \<noteq> CHR ''.'') (rev s)))"

text \<open>
  The record that wins a tree id under last-write-wins: the last entry of the sequence
  that lists the tree id among its \<^verbatim>\<open>MN\<close> values.
\<close>

definition last_owner :: "entry list \<Rightarrow> string \<Rightarrow> entry option" where
  "last_owner es tree =
     (case filter (\<lambda>e. tree \<in> set (get e ''MN'')) es of [] \<Rightarrow> None | fs \<Rightarrow> Some (last fs))"

text \<open>
  Order-preserving removal of duplicates: every value stays at its first occurrence
  and its later occurrences are dropped.
\<close>

primrec first_seen :: "'a list \<Rightarrow> 'a list" where
  "first_seen [] = []"
| "first_seen (x # xs) = x # filter (\<lambda>y. y \<noteq> x) (first_seen xs)"

text \<open>The first line of the input that is not blank, stripped; none when every line is blank.\<close>

definition first_nonblank :: "string list \<Rightarrow> string option" where
  "first_nonblank fin =
     (case dropWhile (\<lambda>raw. strip raw = []) fin of [] \<Rightarrow> None | raw # _ \<Rightarrow> Some (strip raw))"

text \<open>An entry none of whose values contains a line feed.\<close>

definition lf_free :: "entry \<Rightarrow> bool" where
  "lf_free e = list_all (\<lambda>(k, vs). list_all (\<lambda>v. CHR 0x0A \<notin> set v) vs) e"

section \<open>Parent lookup\<close>

lemma parent_prefix_spec_Cons_dot:
  assumes "CHR ''.'' \<in> set cs"
  shows "parent_prefix_spec (c # cs) = c # parent_prefix_spec cs"
proof -
  have ne: "dropWhile (\<lambda>c. c \<noteq> CHR ''.'') (rev cs) \<noteq> []"
    using assms by (simp add: dropWhile_eq_Nil_conv)
  have "dropWhile (\<lambda>c. c \<noteq> CHR ''.'') (rev cs @ [c])
          = dropWhile (\<lambda>c. c \<noteq> CHR ''.'') (rev cs) @ [c]"
    using assms by (intro dropWhile_append1[of "CHR ''.''"]) auto
  then show ?thesis using ne by (simp add: parent_prefix_spec_def)
qed

lemma parent_prefix_spec_last_dot:
  assumes "CHR ''.'' \<notin> set cs"
  shows "parent_prefix_spec (CHR ''.'' # cs) = []"
proof -
  have "dropWhile (\<lambda>c. c \<noteq> CHR ''.'') (rev cs @ [CHR ''.'']) = [CHR ''.'']"
    using assms by (subst dropWhile_append2) auto
  then show ?thesis by (simp add: parent_prefix_spec_def)
qed

text \<open>
  The regular expression cuts the string at its last dot whenever something follows
  that dot.
\<close>

lemma sub_last_segment_eq_spec:
  "CHR ''.'' \<in> set s \<Longrightarrow> last s \<noteq> CHR ''.'' \<Longrightarrow> sub_last_segment s = parent_prefix_spec s"
proof (induction s)
  case Nil
  then show ?case by simp
next
  case (Cons c cs)
  show ?case
  proof (cases "CHR ''.'' \<in> set cs")
    case True
    then have "cs \<noteq> []" by auto
    with Cons.prems have "last cs \<noteq> CHR ''.''" by simp
    with True Cons.IH have "sub_last_segment cs = parent_prefix_spec cs" by simp
    with True show ?thesis by (simp add: parent_prefix_spec_Cons_dot)
  next
    case False
    with Cons.prems have c: "c = CHR ''.''" by simp
    with Cons.prems have "cs \<noteq> []" by auto
    with False c show ?thesis by (simp add: parent_prefix_spec_last_dot)
  qed
qed

text \<open>A string that ends in a dot has no match and is looked up as it is.\<close>

lemma sub_last_segment_trailing_dot:
  "s \<noteq> [] \<Longrightarrow> last s = CHR ''.'' \<Longrightarrow> sub_last_segment s = s"
proof (induction s)
  case Nil
  then show ?case by simp
next
  case (Cons c cs)
  show ?case
  proof (cases "cs = []")
    case True
    then show ?thesis by simp
  next
    case False
    with Cons.prems have l: "last cs = CHR ''.''" by simp
    with False have "CHR ''.'' \<in> set cs" using last_in_set by metis
    with Cons.IH False l show ?thesis by simp
  qed
qed

text \<open>
  Claim C1, as amended. For every tree id that contains a dot, does not end in a dot,
  and whose parent prefix (everything before the last dot) is a key of the map,
  \<open>getParent\<close> returns the unique id stored under that parent prefix.
\<close>

theorem getParent_parent_prefix:
  assumes "CHR ''.'' \<in> set ident" and "last ident \<noteq> CHR ''.''"
    and "parentList (parent_prefix_spec ident) = Some cid"
  shows "getParent parentList ident = Inr (Some cid)"
  using assms by (simp add: getParent_def sub_last_segment_eq_spec)

theorem getParent_parent_prefix_witness:
  "CHR ''.'' \<in> set ''C06.198'' \<and> last ''C06.198'' \<noteq> CHR ''.'' \<and>
   [''C06'' \<mapsto> ''D005767''] (parent_prefix_spec ''C06.198'') = Some ''D005767'' \<and>
   getParent [''C06'' \<mapsto> ''D005767''] ''C06.198'' = Inr (Some ''D005767'')"
proof -
  have a: "CHR ''.'' \<in> set ''C06.198''" by simp
  have b: "last ''C06.198'' \<noteq> CHR ''.''" by simp
  have c: "[''C06'' \<mapsto> ''D005767''] (parent_prefix_spec ''C06.198'') = Some ''D005767''"
    by (simp add: parent_prefix_spec_def)
  from getParent_parent_prefix [of "''C06.198''" "[''C06'' \<mapsto> ''D005767'']" "''D005767''"] a b c
  show ?thesis by blast
qed

text \<open>
  The claim as first stated fails for a tree id that ends in a dot: \<open>''C06.''\<close> contains
  a dot and its parent prefix \<open>''C06''\<close> is a key of the map, but the pattern needs a
  character after the dot, the key looked up is \<open>''C06.''\<close> itself, and the lookup raises.
\<close>

theorem getParent_trailing_dot_counterexample:
  "CHR ''.'' \<in> set ''C06.'' \<and>
   [''C06'' \<mapsto> ''D005767''] (parent_prefix_spec ''C06.'') = Some ''D005767'' \<and>
   getParent [''C06'' \<mapsto> ''D005767''] ''C06.'' = Inl KeyError"
  by (simp add: parent_prefix_spec_def getParent_def)

text \<open>
  Claim C2, as amended. \<open>getParent\<close> raises \<open>KeyError\<close> exactly when the tree id contains
  a dot and the key it looks up is absent from the map; for every other tree id it
  returns a unique id or none.
\<close>

theorem getParent_raises_iff:
  "(getParent parentList ident = Inl KeyError \<longleftrightarrow>
      CHR ''.'' \<in> set ident \<and> parentList (sub_last_segment ident) = None) \<and>
   (getParent parentList ident \<noteq> Inl KeyError \<longrightarrow>
      (\<exists>r. getParent parentList ident = Inr r))"
  by (auto simp: getParent_def split: option.splits)

theorem getParent_raises_iff_witness:
  "getParent [''C06'' \<mapsto> ''D005767''] ''C06.198'' \<noteq> Inl KeyError \<and>
   (\<exists>r. getParent [''C06'' \<mapsto> ''D005767''] ''C06.198'' = Inr r)"
proof -
  have "[''C06'' \<mapsto> ''D005767''] (sub_last_segment ''C06.198'') \<noteq> None" by simp
  with getParent_raises_iff [of "[''C06'' \<mapsto> ''D005767'']" "''C06.198''"]
  show ?thesis by blast
qed

text \<open>
  The dangling case is not a returned value: with no entry for \<open>''X99''\<close> the lookup of
  \<open>''X99.001''\<close> raises.
\<close>

theorem getParent_dangling_counterexample:
  "CHR ''.'' \<in> set ''X99.001'' \<and>
   [''C06'' \<mapsto> ''D005767''] ''X99'' = None \<and>
   getParent [''C06'' \<mapsto> ''D005767''] ''X99.001'' = Inl KeyError"
  by (simp add: getParent_def)

text \<open>
  Claim C3. For every tree id without a dot, \<open>getParent\<close> returns the first character of
  the tree id when its length is 3, whatever the map holds, and none when its length
  is not 3.
\<close>

theorem getParent_top_level:
  assumes "CHR ''.'' \<notin> set ident"
  shows "(length ident = 3 \<longrightarrow> getParent parentList ident = Inr (Some [ident ! 0])) \<and>
         (length ident \<noteq> 3 \<longrightarrow> getParent parentList ident = Inr None)"
  using assms by (simp add: getParent_def)

theorem getParent_top_level_witness:
  "CHR ''.'' \<notin> set ''C06'' \<and> getParent [''C06'' \<mapsto> ''D005767''] ''C06'' = Inr (Some ''C'') \<and>
   CHR ''.'' \<notin> set ''C0'' \<and> getParent [''C06'' \<mapsto> ''D005767''] ''C0'' = Inr None"
proof -
  have a: "CHR ''.'' \<notin> set ''C06''" by simp
  have b: "CHR ''.'' \<notin> set ''C0''" by simp
  from getParent_top_level [OF a, of "[''C06'' \<mapsto> ''D005767'']"]
       getParent_top_level [OF b, of "[''C06'' \<mapsto> ''D005767'']"] a b
  show ?thesis by simp
qed

section \<open>Building the tree-id map\<close>

lemma last_owner_Nil: "last_owner [] tree = None"
  by (simp add: last_owner_def)

lemma last_owner_Cons:
  "last_owner (e # es) tree =
     (case last_owner es tree of
        Some e' \<Rightarrow> Some e'
      | None \<Rightarrow> if tree \<in> set (get e ''MN'') then Some e else None)"
  by (simp add: last_owner_def split: list.splits)

lemma build_entry_ok:
  "get e ''UI'' = ui # rest \<Longrightarrow>
   build_entry e trees parentList = Inr (\<lambda>t. if t \<in> set trees then Some ui else parentList t)"
proof (induction trees arbitrary: parentList)
  case Nil
  then show ?case by simp
next
  case (Cons tree trees)
  have "(\<lambda>t. if t \<in> set trees then Some ui else (parentList(tree \<mapsto> ui)) t)
          = (\<lambda>t. if t \<in> set (tree # trees) then Some ui else parentList t)"
    by (auto simp: fun_eq_iff)
  with Cons show ?case by simp
qed

lemma build_entry_MN:
  assumes "get e ''MN'' \<noteq> [] \<longrightarrow> get e ''UI'' \<noteq> []"
  shows "build_entry e (get e ''MN'') parentList =
           Inr (\<lambda>t. if t \<in> set (get e ''MN'') then Some (hd (get e ''UI'')) else parentList t)"
proof (cases "get e ''MN'' = []")
  case True
  then show ?thesis by simp
next
  case False
  with assms obtain ui rest where ui: "get e ''UI'' = ui # rest"
    by (cases "get e ''UI''") auto
  from build_entry_ok [OF ui, of "get e ''MN''" parentList] ui show ?thesis
    by (simp cong: if_cong)
qed

lemma build_loop_from:
  assumes "\<forall>e \<in> set es. get e ''MN'' \<noteq> [] \<longrightarrow> get e ''UI'' \<noteq> []"
  shows "build_loop es parentList =
           Inr (\<lambda>t. case last_owner es t of
                       None \<Rightarrow> parentList t
                     | Some e \<Rightarrow> Some (hd (get e ''UI'')))"
  using assms
proof (induction es arbitrary: parentList)
  case Nil
  then show ?case by (simp add: last_owner_Nil)
next
  case (Cons e es)
  let ?pl = "\<lambda>t. if t \<in> set (get e ''MN'') then Some (hd (get e ''UI'')) else parentList t"
  from Cons.prems have step: "build_entry e (get e ''MN'') parentList = Inr ?pl"
    by (intro build_entry_MN) simp
  from Cons.prems have "build_loop es ?pl =
      Inr (\<lambda>t. case last_owner es t of None \<Rightarrow> ?pl t | Some e \<Rightarrow> Some (hd (get e ''UI'')))"
    by (intro Cons.IH) simp
  moreover have "(\<lambda>t. case last_owner es t of None \<Rightarrow> ?pl t | Some e \<Rightarrow> Some (hd (get e ''UI'')))
      = (\<lambda>t. case last_owner (e # es) t of None \<Rightarrow> parentList t | Some e \<Rightarrow> Some (hd (get e ''UI'')))"
    by (auto simp: fun_eq_iff last_owner_Cons split: option.splits)
  ultimately show ?case using step by simp
qed

text \<open>
  Claim C4. When every entry that has a tree id also has a unique id, the build loop
  ends normally, and the finished map sends every tree id listed by some entry to the
  first \<^verbatim>\<open>UI\<close> value of the last entry that lists it (a later entry overwrites an
  earlier one, in the order of the sequence); a tree id listed by no entry is not a key.
\<close>

theorem build_loop_last_write_wins:
  assumes "\<forall>e \<in> set es. get e ''MN'' \<noteq> [] \<longrightarrow> get e ''UI'' \<noteq> []"
  shows "\<exists>parentList. build_loop es Map.empty = Inr parentList \<and>
           (\<forall>tree. parentList tree = map_option (\<lambda>e. hd (get e ''UI'')) (last_owner es tree))"
proof -
  have "(\<lambda>t. case last_owner es t of None \<Rightarrow> None | Some e \<Rightarrow> Some (hd (get e ''UI'')))
          = (\<lambda>t. map_option (\<lambda>e. hd (get e ''UI'')) (last_owner es t))"
    by (auto simp: fun_eq_iff split: option.splits)
  with build_loop_from [OF assms, of Map.empty] show ?thesis by simp
qed

theorem build_loop_last_write_wins_witness:
  "\<exists>parentList.
     build_loop [[(''UI'', [''D000001'']), (''MN'', [''C06.198'', ''C23.550''])],
                 [(''UI'', [''D000002'']), (''MN'', [''C06.198''])]] Map.empty = Inr parentList \<and>
     parentList ''C06.198'' = Some ''D000002'' \<and>
     parentList ''C23.550'' = Some ''D000001'' \<and>
     parentList ''C06'' = None"
proof -
  let ?es = "[[(''UI'', [''D000001'']), (''MN'', [''C06.198'', ''C23.550''])],
              [(''UI'', [''D000002'']), (''MN'', [''C06.198''])]]"
  have h: "\<forall>e \<in> set ?es. get e ''MN'' \<noteq> [] \<longrightarrow> get e ''UI'' \<noteq> []"
    by (simp add: get_def)
  from build_loop_last_write_wins [OF h] obtain parentList where
    b: "build_loop ?es Map.empty = Inr parentList" and
    l: "\<And>tree. parentList tree = map_option (\<lambda>e. hd (get e ''UI'')) (last_owner ?es tree)"
    by blast
  have "parentList ''C06.198'' = Some ''D000002''"
    by (simp add: l last_owner_def get_def)
  moreover have "parentList ''C23.550'' = Some ''D000001''"
    by (simp add: l last_owner_def get_def)
  moreover have "parentList ''C06'' = None"
    by (simp add: l last_owner_def get_def)
  ultimately show ?thesis using b by blast
qed

section \<open>The \<^verbatim>\<open>is_a\<close> lines of a stanza\<close>

lemma set_first_seen: "set (first_seen xs) = set xs"
  by (induction xs) auto

lemma distinct_first_seen: "distinct (first_seen xs)"
  by (induction xs) (auto simp: set_first_seen)

lemma is_a_loop_done:
  assumes "map (getParent parentList) trees = map (\<lambda>p. Inr (Some p)) parents"
  shows "is_a_loop parentList trees (map Some seen) =
           (map is_a_line (filter (\<lambda>p. p \<notin> set seen) (first_seen parents)), None)"
  using assms
proof (induction trees arbitrary: parents seen)
  case Nil
  then show ?case by simp
next
  case (Cons tree trees)
  then obtain p ps where parents: "parents = p # ps"
    and g: "getParent parentList tree = Inr (Some p)"
    and rest: "map (getParent parentList) trees = map (\<lambda>p. Inr (Some p)) ps"
    by (cases parents) auto
  show ?case
  proof (cases "p \<in> set seen")
    case True
    then have "filter (\<lambda>q. q \<notin> set seen) (filter (\<lambda>y. y \<noteq> p) (first_seen ps))
                 = filter (\<lambda>q. q \<notin> set seen) (first_seen ps)"
      by (auto intro: filter_cong)
    with True g parents Cons.IH [OF rest, of seen] show ?thesis
      by (auto simp: image_iff)
  next
    case False
    have "map Some seen @ [Some p] = map Some (seen @ [p])" by simp
    then have "is_a_loop parentList trees (map Some seen @ [Some p]) =
        (map is_a_line (filter (\<lambda>q. q \<notin> set (seen @ [p])) (first_seen ps)), None)"
      using Cons.IH [OF rest, of "seen @ [p]"] by simp
    moreover have "filter (\<lambda>q. q \<notin> set (seen @ [p])) (first_seen ps)
        = filter (\<lambda>q. q \<notin> set seen) (filter (\<lambda>y. y \<noteq> p) (first_seen ps))"
      by (auto intro: filter_cong)
    ultimately show ?thesis using False g parents
      by (auto simp: image_iff)
  qed
qed

text \<open>
  The stanza of an entry that has a unique id and a name: the three head lines, the
  synonym lines, what the loop over the tree ids printed, and the empty line when that
  loop ended normally.
\<close>

lemma emitEntry_stanza:
  assumes "get e ''UI'' = ui # uis" and "get e ''MH'' = mh # mhs"
  shows "emitEntry parentList e =
           ([''[Term]'', ''id: '' @ ui, ''name: '' @ mh] @ synonym_lines e
              @ fst (is_a_loop parentList (get e ''MN'') [])
              @ (case snd (is_a_loop parentList (get e ''MN'') []) of None \<Rightarrow> [[]] | Some _ \<Rightarrow> []),
            snd (is_a_loop parentList (get e ''MN'') []))"
  using assms by (simp add: emitEntry_def split: prod.splits)

text \<open>
  Claim C5, as amended. For every entry that has a unique id and a name and whose tree
  ids all resolve to a parent (\<open>getParent\<close> returns a unique id for each of them), the
  emitter goes through the tree ids in order and the stanza it prints holds, after the
  head lines and the synonym lines, exactly one \<^verbatim>\<open>is_a\<close> line per distinct parent, in
  the order in which the parents are first seen, and then the closing empty line; the
  emission ends normally. In particular two tree ids with the same parent give one line.
\<close>

theorem emitEntry_is_a_first_seen:
  assumes "get e ''UI'' = ui # uis" and "get e ''MH'' = mh # mhs"
    and "map (getParent parentList) (get e ''MN'') = map (\<lambda>p. Inr (Some p)) parents"
  shows "emitEntry parentList e =
           ([''[Term]'', ''id: '' @ ui, ''name: '' @ mh] @ synonym_lines e
              @ map is_a_line (first_seen parents) @ [[]], None) \<and>
         distinct (first_seen parents) \<and> set (first_seen parents) = set parents"
proof -
  from is_a_loop_done [OF assms(3), of "[]"]
  have "is_a_loop parentList (get e ''MN'') [] = (map is_a_line (first_seen parents), None)"
    by simp
  with emitEntry_stanza [OF assms(1,2), of parentList] show ?thesis
    by (simp add: set_first_seen distinct_first_seen)
qed

theorem emitEntry_is_a_first_seen_witness:
  "get [(''UI'', [''D000123'']), (''MH'', [''Example Concept'']),
        (''MN'', [''C06.198.100'', ''C06.198.200'', ''C06''])] ''UI'' = [''D000123''] \<and>
   get [(''UI'', [''D000123'']), (''MH'', [''Example Concept'']),
        (''MN'', [''C06.198.100'', ''C06.198.200'', ''C06''])] ''MH'' = [''Example Concept''] \<and>
   map (getParent [''C06.198'' \<mapsto> ''D000099''])
       (get [(''UI'', [''D000123'']), (''MH'', [''Example Concept'']),
             (''MN'', [''C06.198.100'', ''C06.198.200'', ''C06''])] ''MN'')
     = map (\<lambda>p. Inr (Some p)) [''D000099'', ''D000099'', ''C''] \<and>
   emitEntry [''C06.198'' \<mapsto> ''D000099'']
     [(''UI'', [''D000123'']), (''MH'', [''Example Concept'']),
      (''MN'', [''C06.198.100'', ''C06.198.200'', ''C06''])]
   = ([''[Term]'', ''id: D000123'', ''name: Example Concept'',
       ''is_a: D000099'', ''is_a: C'', ''''], None)"
proof -
  let ?e = "[(''UI'', [''D000123'']), (''MH'', [''Example Concept'']),
             (''MN'', [''C06.198.100'', ''C06.198.200'', ''C06''])]"
  have a: "get ?e ''UI'' = ''D000123'' # []" by (simp add: get_def)
  have b: "get ?e ''MH'' = ''Example Concept'' # []" by (simp add: get_def)
  have c: "map (getParent [''C06.198'' \<mapsto> ''D000099'']) (get ?e ''MN'')
             = map (\<lambda>p. Inr (Some p)) [''D000099'', ''D000099'', ''C'']"
    by (simp add: get_def getParent_def)
  have "emitEntry [''C06.198'' \<mapsto> ''D000099''] ?e
          = ([''[Term]'', ''id: D000123'', ''name: Example Concept'',
              ''is_a: D000099'', ''is_a: C'', ''''], None)"
    using emitEntry_is_a_first_seen [OF a b c]
    by (simp add: is_a_line_def synonym_lines_def get_def)
  with a b c show ?thesis by blast
qed

text \<open>
  The claim does not hold for every entry. The first entry below has the tree ids
  \<open>''X99.001''\<close> and \<open>''C06''\<close>; the map is the one the first pass builds from it. The
  key \<open>''X99''\<close> is missing, \<open>getParent\<close> raises at the first tree id, and no \<^verbatim>\<open>is_a\<close>
  line is printed for \<open>''C06''\<close>, which resolves to \<open>''C''\<close>. The second entry has no
  name: the emitter raises before it reaches the tree ids. The last two lines are the
  run of the whole notebook on the first entry: after the 64 lines of the top-level
  stanzas it prints three lines and stops.
\<close>

theorem emitEntry_dangling_counterexample:
  "getParent [''X99.001'' \<mapsto> ''D000001'', ''C06'' \<mapsto> ''D000001''] ''C06'' = Inr (Some ''C'') \<and>
   emitEntry [''X99.001'' \<mapsto> ''D000001'', ''C06'' \<mapsto> ''D000001'']
     [(''UI'', [''D000001'']), (''MH'', [''Example'']), (''MN'', [''X99.001'', ''C06''])]
     = ([''[Term]'', ''id: D000001'', ''name: Example''], Some KeyError) \<and>
   emitEntry [''C06'' \<mapsto> ''D000002''] [(''UI'', [''D000002'']), (''MN'', [''C06''])]
     = ([''[Term]'', ''id: D000002''], Some IndexError) \<and>
   drop 64 (fst (convert
     [''*NEWRECORD'' @ [CHR 0x0A], ''UI = D000001'' @ [CHR 0x0A], ''MH = Example'' @ [CHR 0x0A],
      ''MN = X99.001'' @ [CHR 0x0A], ''MN = C06'' @ [CHR 0x0A]]))
     = [''[Term]'', ''id: D000001'', ''name: Example''] \<and>
   snd (convert
     [''*NEWRECORD'' @ [CHR 0x0A], ''UI = D000001'' @ [CHR 0x0A], ''MH = Example'' @ [CHR 0x0A],
      ''MN = X99.001'' @ [CHR 0x0A], ''MN = C06'' @ [CHR 0x0A]])
     = Some KeyError"
  by code_simp

text \<open>
  Claim C6. An entry whose tree ids all resolve to none should give a stanza without
  \<^verbatim>\<open>is_a\<close> lines. The code does not get there: \<open>getParent\<close> returns \<^verbatim>\<open>None\<close> for the
  dot-free tree id \<open>''C0''\<close> of length 2, \<^verbatim>\<open>None\<close> is not in \<^verbatim>\<open>done\<close>, and the
  concatenation \<^verbatim>\<open>"is_a: " + parentId\<close> raises \<^verbatim>\<open>TypeError\<close> after the first three lines
  of the stanza have been printed.
\<close>

theorem emitEntry_unresolved_raises:
  "getParent Map.empty ''C0'' = Inr None \<and>
   emitEntry Map.empty [(''UI'', [''D000001'']), (''MH'', [''Example'']), (''MN'', [''C0''])]
     = ([''[Term]'', ''id: D000001'', ''name: Example''], Some TypeError)"
  by (simp add: emitEntry_def get_def getParent_def synonym_lines_def)

section \<open>Reading the records\<close>

lemma sentinel_step:
  "strip raw = ''*NEWRECORD'' \<Longrightarrow>
   scan entry (raw # fin) =
     (case entry of
        None \<Rightarrow> scan (Some []) fin
      | Some e \<Rightarrow>
          if e \<noteq> [] then (e # fst (scan (Some []) fin), snd (scan (Some []) fin))
          else scan (Some []) fin)"
  by (simp add: truthy_def yield_def split: option.splits)

lemma scan_yields_nonempty:
  "e \<in> set (fst (scan entry fin)) \<Longrightarrow> e \<noteq> []"
proof (induction fin arbitrary: entry)
  case Nil
  then show ?case
    by (auto simp: truthy_def yield_def split: option.splits if_splits)
next
  case (Cons raw fin)
  show ?case
  proof (cases "strip raw = []")
    case True
    with Cons show ?thesis by simp
  next
    case False
    show ?thesis
    proof (cases "strip raw = ''*NEWRECORD''")
      case True
      with Cons.prems Cons.IH [of "Some []"] show ?thesis
        by (auto simp: truthy_def yield_def split: option.splits if_splits)
    next
      case nosent: False
      with False Cons.prems Cons.IH show ?thesis
        by (auto simp: Let_def split: option.splits prod.splits)
    qed
  qed
qed

text \<open>
  Claim C7, as amended. A sentinel line closes the current record: when a record is
  open and holds at least one field, that record is yielded; in every case the loop
  goes on with a fresh empty record. An open record without fields (two sentinel lines
  in a row) is not yielded, so no yielded record is empty.
\<close>

theorem scan_sentinel:
  assumes "strip raw = ''*NEWRECORD''"
  shows "scan entry (raw # fin) =
           (case entry of
              None \<Rightarrow> scan (Some []) fin
            | Some e \<Rightarrow>
                if e \<noteq> [] then (e # fst (scan (Some []) fin), snd (scan (Some []) fin))
                else scan (Some []) fin) \<and>
         [] \<notin> set (fst (scan entry (raw # fin)))"
  using assms scan_yields_nonempty [of "[]" entry "raw # fin"]
  by (auto simp only: sentinel_step)

theorem scan_sentinel_witness:
  "strip (''*NEWRECORD'' @ [CHR 0x0A]) = ''*NEWRECORD'' \<and>
   scan (Some [(''UI'', [''D000001''])]) [''*NEWRECORD'' @ [CHR 0x0A], ''UI = D000002'' @ [CHR 0x0A]]
     = ([[(''UI'', [''D000001''])], [(''UI'', [''D000002''])]], None)"
proof -
  have s: "strip (''*NEWRECORD'' @ [CHR 0x0A]) = ''*NEWRECORD''"
    by (simp add: strip_def isspace_def whitespace_def)
  have r: "scan (Some []) [''UI = D000002'' @ [CHR 0x0A]] = ([[(''UI'', [''D000002''])]], None)"
    by (simp add: strip_def isspace_def whitespace_def partition_str_def truthy_def yield_def)
  from scan_sentinel [OF s, of "Some [(''UI'', [''D000001''])]" "[''UI = D000002'' @ [CHR 0x0A]]"] s r
  show ?thesis by simp
qed

text \<open>
  A record can be open without being yielded at the next sentinel: \<^verbatim>\<open>if entry:\<close> is false
  for the empty dictionary. Two sentinel lines in a row yield nothing.
\<close>

theorem scan_empty_record_counterexample:
  "scan (Some []) [''*NEWRECORD''] = ([], None) \<and>
   scan None [''*NEWRECORD'', ''*NEWRECORD''] = ([], None)"
  by (simp add: strip_def isspace_def whitespace_def truthy_def yield_def)

lemma get_provideEntry:
  "get (provideEntry ident name) ''UI'' = [ident]"
  "get (provideEntry ident name) ''MH'' = [name]"
  "get (provideEntry ident name) ''ENTRY'' = []"
  "get (provideEntry ident name) ''MN'' = []"
  by (simp_all add: provideEntry_def get_def)

text \<open>
  Claim C9. The entries yielded by \<open>readMeSH\<close> begin with one entry per top-level term,
  in the order of the table, before any entry made from the input lines. The keys of
  the table are single letters, and the entry made for a key and a name has the key as
  its only \<^verbatim>\<open>UI\<close> value, the name as its only \<^verbatim>\<open>MH\<close> value, no \<^verbatim>\<open>ENTRY\<close> value (no
  synonym) and no \<^verbatim>\<open>MN\<close> value (no tree id).
\<close>

theorem readMeSH_top_level_first:
  "fst (readMeSH fin) = map (\<lambda>(ident, name). provideEntry ident name) topLevelTerms @ fst (scan None fin) \<and>
   list_all (\<lambda>(ident, name). length ident = 1) topLevelTerms \<and>
   get (provideEntry ident name) ''UI'' = [ident] \<and>
   get (provideEntry ident name) ''MH'' = [name] \<and>
   get (provideEntry ident name) ''ENTRY'' = [] \<and>
   get (provideEntry ident name) ''MN'' = []"
proof -
  have "fst (readMeSH fin) = map (\<lambda>(ident, name). provideEntry ident name) topLevelTerms @ fst (scan None fin)"
    by (simp add: readMeSH_def split: prod.splits)
  moreover have "list_all (\<lambda>(ident, name). length ident = 1) topLevelTerms"
    by (simp add: topLevelTerms_def)
  ultimately show ?thesis by (simp add: get_provideEntry)
qed

theorem readMeSH_top_level_first_witness:
  "take 3 (fst (readMeSH [''*NEWRECORD'' @ [CHR 0x0A], ''UI = D000001'' @ [CHR 0x0A]]))
     = [[(''UI'', [''A'']), (''MH'', [''Anatomy''])],
        [(''UI'', [''B'']), (''MH'', [''Organisms''])],
        [(''UI'', [''C'']), (''MH'', [''Diseases''])]] \<and>
   drop 16 (fst (readMeSH [''*NEWRECORD'' @ [CHR 0x0A], ''UI = D000001'' @ [CHR 0x0A]]))
     = [[(''UI'', [''D000001''])]]"
proof -
  have "scan None [''*NEWRECORD'' @ [CHR 0x0A], ''UI = D000001'' @ [CHR 0x0A]]
          = ([[(''UI'', [''D000001''])]], None)"
    by (simp add: strip_def isspace_def whitespace_def partition_str_def truthy_def yield_def)
  with readMeSH_top_level_first [of "[''*NEWRECORD'' @ [CHR 0x0A], ''UI = D000001'' @ [CHR 0x0A]]"]
  show ?thesis by (simp add: topLevelTerms_def provideEntry_def)
qed

lemma scan_open_total: "snd (scan (Some e) fin) = None"
proof (induction fin arbitrary: e)
  case Nil
  then show ?case by (simp add: truthy_def yield_def)
next
  case (Cons raw fin)
  then show ?case
    by (auto simp: Let_def truthy_def yield_def split: prod.splits)
qed

lemma first_nonblank_Cons:
  "first_nonblank (raw # fin) = (if strip raw = [] then first_nonblank fin else Some (strip raw))"
  by (simp add: first_nonblank_def)

lemma scan_None_raises:
  "first_nonblank fin = Some line \<Longrightarrow> line \<noteq> ''*NEWRECORD'' \<Longrightarrow>
   scan None fin = ([], Some TypeError)"
proof (induction fin)
  case Nil
  then show ?case by (simp add: first_nonblank_def)
next
  case (Cons raw fin)
  show ?case
  proof (cases "strip raw = []")
    case True
    with Cons show ?thesis by (simp add: first_nonblank_Cons)
  next
    case False
    with Cons.prems have "strip raw = line" by (simp add: first_nonblank_Cons)
    with False Cons.prems show ?thesis
      by (simp add: Let_def split: prod.splits)
  qed
qed

lemma scan_None_returns:
  "first_nonblank fin = None \<or> first_nonblank fin = Some ''*NEWRECORD'' \<Longrightarrow>
   snd (scan None fin) = None"
proof (induction fin)
  case Nil
  then show ?case by (simp add: truthy_def)
next
  case (Cons raw fin)
  show ?case
  proof (cases "strip raw = []")
    case True
    with Cons show ?thesis by (simp add: first_nonblank_Cons)
  next
    case False
    with Cons.prems have "strip raw = ''*NEWRECORD''" by (simp add: first_nonblank_Cons)
    then show ?thesis by (simp add: truthy_def scan_open_total)
  qed
qed

text \<open>
  Claim C10. When the first non-blank line of the input is not the sentinel,
  \<open>readMeSH\<close> raises at that line, after the top-level entries and before any other
  entry: no record is open and \<^verbatim>\<open>None\<close> is subscripted. When the first non-blank line is
  the sentinel, or every line is blank, \<open>readMeSH\<close> ends normally.
\<close>

theorem readMeSH_fails_before_sentinel:
  "(first_nonblank fin = Some line \<and> line \<noteq> ''*NEWRECORD'' \<longrightarrow>
      readMeSH fin = (map (\<lambda>(ident, name). provideEntry ident name) topLevelTerms, Some TypeError)) \<and>
   (first_nonblank fin = None \<or> first_nonblank fin = Some ''*NEWRECORD'' \<longrightarrow>
      snd (readMeSH fin) = None)"
proof -
  have "readMeSH fin = (map (\<lambda>(ident, name). provideEntry ident name) topLevelTerms, Some TypeError)"
    if "first_nonblank fin = Some line" "line \<noteq> ''*NEWRECORD''"
  proof -
    from that have "scan None fin = ([], Some TypeError)"
      by (rule scan_None_raises)
    then show ?thesis by (simp add: readMeSH_def)
  qed
  moreover have "snd (readMeSH fin) = None"
    if "first_nonblank fin = None \<or> first_nonblank fin = Some ''*NEWRECORD''"
  proof -
    from that have "snd (scan None fin) = None"
      by (rule scan_None_returns)
    then show ?thesis by (cases "scan None fin") (simp add: readMeSH_def)
  qed
  ultimately show ?thesis by blast
qed

theorem readMeSH_fails_before_sentinel_witness:
  "first_nonblank [[CHR 0x0A], ''UI = D000001'' @ [CHR 0x0A]] = Some ''UI = D000001'' \<and>
   readMeSH [[CHR 0x0A], ''UI = D000001'' @ [CHR 0x0A]]
     = (map (\<lambda>(ident, name). provideEntry ident name) topLevelTerms, Some TypeError) \<and>
   first_nonblank [[CHR 0x0A], ''*NEWRECORD'' @ [CHR 0x0A], ''UI = D000001'' @ [CHR 0x0A]] = Some ''*NEWRECORD'' \<and>
   snd (readMeSH [[CHR 0x0A], ''*NEWRECORD'' @ [CHR 0x0A], ''UI = D000001'' @ [CHR 0x0A]]) = None"
proof -
  have a: "first_nonblank [[CHR 0x0A], ''UI = D000001'' @ [CHR 0x0A]] = Some ''UI = D000001''"
    by (simp add: first_nonblank_def strip_def isspace_def whitespace_def)
  have b: "first_nonblank [[CHR 0x0A], ''*NEWRECORD'' @ [CHR 0x0A], ''UI = D000001'' @ [CHR 0x0A]] = Some ''*NEWRECORD''"
    by (simp add: first_nonblank_def strip_def isspace_def whitespace_def)
  have c: "''UI = D000001'' \<noteq> ''*NEWRECORD''" by simp
  from readMeSH_fails_before_sentinel [of "[[CHR 0x0A], ''UI = D000001'' @ [CHR 0x0A]]" "''UI = D000001''"]
       readMeSH_fails_before_sentinel [of "[[CHR 0x0A], ''*NEWRECORD'' @ [CHR 0x0A], ''UI = D000001'' @ [CHR 0x0A]]" "''x''"]
       a b c
  show ?thesis by blast
qed

section \<open>The synonym lines of a stanza\<close>

lemma isspace_lf: "isspace (CHR 0x0A)"
  by (simp add: isspace_def whitespace_def)

lemma butlast_dropWhile_subset: "set (butlast (dropWhile P xs)) \<subseteq> set (butlast xs)"
proof (cases "dropWhile P xs = []")
  case True
  then show ?thesis by (simp only: True) simp
next
  case False
  have "xs = takeWhile P xs @ dropWhile P xs" by simp
  then have "butlast xs = takeWhile P xs @ butlast (dropWhile P xs)"
    using False by (metis butlast_append)
  then show ?thesis by (metis Un_upper2 set_append)
qed

lemma strip_lf_free:
  assumes "CHR 0x0A \<notin> set (butlast raw)"
  shows "CHR 0x0A \<notin> set (strip raw)"
proof -
  define m where "m = dropWhile isspace raw"
  from assms have m: "CHR 0x0A \<notin> set (butlast m)"
    unfolding m_def using butlast_dropWhile_subset [of isspace raw] by blast
  have "CHR 0x0A \<notin> set (dropWhile isspace (rev m))"
  proof (cases m rule: rev_cases)
    case Nil
    then show ?thesis by simp
  next
    case (snoc ys c)
    show ?thesis
    proof (cases "isspace c")
      case True
      with snoc m show ?thesis by (auto dest: set_dropWhileD)
    next
      case False
      then have "c \<noteq> CHR 0x0A" using isspace_lf by auto
      with False snoc m show ?thesis by auto
    qed
  qed
  then show ?thesis by (simp add: strip_def m_def)
qed

lemma find_sep_subset:
  "find_sep sep s = Some (a, b) \<Longrightarrow> set a \<subseteq> set s \<and> set b \<subseteq> set s"
proof (induction s arbitrary: a b)
  case Nil
  then show ?case by simp
next
  case (Cons c cs)
  show ?case
  proof (cases "take (length sep) (c # cs) = sep")
    case True
    with Cons.prems have "a = []" "b = drop (length sep) (c # cs)" by auto
    then show ?thesis using set_drop_subset [of "length sep" "c # cs"] by auto
  next
    case False
    with Cons.prems obtain a' where "find_sep sep cs = Some (a', b)" "a = c # a'"
      by (auto split: option.splits)
    with Cons.IH [of a' b] show ?thesis by auto
  qed
qed

lemma partition_str_subset:
  "partition_str line sep = (key, mid, val) \<Longrightarrow> set val \<subseteq> set line"
  by (auto simp: partition_str_def split: option.splits dest: find_sep_subset)

lemma append_value_lf_free:
  "lf_free e \<Longrightarrow> CHR 0x0A \<notin> set v \<Longrightarrow> lf_free (append_value k v e)"
  by (induction e) (auto simp: lf_free_def)

lemma scan_lf_free:
  assumes "\<forall>raw \<in> set fin. CHR 0x0A \<notin> set (butlast raw)"
    and "case entry of None \<Rightarrow> True | Some e \<Rightarrow> lf_free e"
    and "e' \<in> set (fst (scan entry fin))"
  shows "lf_free e'"
  using assms
proof (induction fin arbitrary: entry)
  case Nil
  then show ?case
    by (auto simp: truthy_def yield_def split: option.splits if_splits)
next
  case (Cons raw fin)
  from Cons.prems(1) have rest: "\<forall>raw \<in> set fin. CHR 0x0A \<notin> set (butlast raw)"
    and raw: "CHR 0x0A \<notin> set (strip raw)"
    by (simp_all add: strip_lf_free)
  have empty: "case Some [] of None \<Rightarrow> True | Some e \<Rightarrow> lf_free e"
    by (simp add: lf_free_def)
  show ?case
  proof (cases "strip raw = []")
    case True
    with Cons.prems(2,3) Cons.IH [OF rest] show ?thesis by simp
  next
    case False
    show ?thesis
    proof (cases "strip raw = ''*NEWRECORD''")
      case True
      with Cons.prems(2,3) Cons.IH [OF rest empty] show ?thesis
        by (auto simp: truthy_def yield_def split: option.splits if_splits)
    next
      case nosent: False
      obtain key mid val where p: "partition_str (strip raw) '' = '' = (key, mid, val)"
        by (cases "partition_str (strip raw) '' = ''") auto
      with raw have val: "CHR 0x0A \<notin> set val"
        using partition_str_subset by blast
      show ?thesis
      proof (cases entry)
        case None
        with False nosent p Cons.prems(3) show ?thesis by (simp add: Let_def)
      next
        case (Some e)
        with Cons.prems(2) val have "lf_free (append_value key val e)"
          by (simp add: append_value_lf_free)
        then have "case Some (append_value key val e) of None \<Rightarrow> True | Some e \<Rightarrow> lf_free e"
          by simp
        from Cons.IH [OF rest this] Some False nosent p Cons.prems(3) show ?thesis
          by (simp add: Let_def)
      qed
    qed
  qed
qed

lemma lf_free_get:
  assumes "lf_free e" and "v \<in> set (get e k)"
  shows "CHR 0x0A \<notin> set v"
proof -
  from assms(2) obtain vs where "map_of e k = Some vs" and v: "v \<in> set vs"
    by (cases "map_of e k") (auto simp: get_def)
  then have "(k, vs) \<in> set e" by (simp add: map_of_SomeD)
  with assms(1) v show ?thesis by (auto simp: lf_free_def list_all_iff)
qed

lemma sub_bar_lf_free:
  "CHR 0x0A \<notin> set s \<Longrightarrow> sub_bar s = takeWhile (\<lambda>c. c \<noteq> CHR ''|'') s"
proof (induction s)
  case Nil
  then show ?case by simp
next
  case (Cons c cs)
  show ?case
  proof (cases "c = CHR ''|''")
    case True
    from Cons.prems have d: "dropWhile (\<lambda>d. d \<noteq> CHR 0x0A) cs = []" by auto
    from True have "sub_bar (c # cs) = sub_bar (dropWhile (\<lambda>d. d \<noteq> CHR 0x0A) cs)" by simp
    also have "\<dots> = []" by (simp only: d sub_bar.simps)
    finally show ?thesis using True by simp
  next
    case False
    with Cons show ?thesis by simp
  qed
qed

lemma readMeSH_entries:
  assumes "e \<in> set (fst (readMeSH fin))"
  shows "(\<exists>ident name. e = provideEntry ident name) \<or> e \<in> set (fst (scan None fin))"
  using assms by (auto simp: readMeSH_def split: prod.splits)

text \<open>
  The lines of a text file hold a line feed at most as their last character. For the
  entries read from such lines the substitution cuts every \<^verbatim>\<open>ENTRY\<close> value at its
  first bar.
\<close>

lemma synonym_lines_cut:
  assumes "\<forall>raw \<in> set fin. CHR 0x0A \<notin> set (butlast raw)"
    and "e \<in> set (fst (readMeSH fin))"
  shows "synonym_lines e =
           map (\<lambda>syn. ''synonym: '' @ [CHR 0x22] @ takeWhile (\<lambda>c. c \<noteq> CHR ''|'') syn
                        @ [CHR 0x22] @ '' EXACT []'')
               (get e ''ENTRY'')"
proof -
  from readMeSH_entries [OF assms(2)] show ?thesis
  proof
    assume "\<exists>ident name. e = provideEntry ident name"
    then have "get e ''ENTRY'' = []" by (auto simp: provideEntry_def get_def)
    then show ?thesis by (simp add: synonym_lines_def)
  next
    assume "e \<in> set (fst (scan None fin))"
    with assms(1) have "lf_free e" by (intro scan_lf_free [of fin None]) simp_all
    then have "\<forall>syn \<in> set (get e ''ENTRY''). sub_bar syn = takeWhile (\<lambda>c. c \<noteq> CHR ''|'') syn"
      by (auto dest: lf_free_get intro: sub_bar_lf_free)
    then show ?thesis by (simp add: synonym_lines_def synonym_line_def)
  qed
qed

text \<open>
  Claim C8. For every entry read from the lines of a text file that has a unique id
  and a name, the stanza the emitter prints holds, right after the three head lines,
  one synonym line per \<^verbatim>\<open>ENTRY\<close> value, in order: \<^verbatim>\<open>synonym: "\<close>, the value cut at its
  first bar (the bar and everything after it dropped), and \<^verbatim>\<open>" EXACT []\<close>. The
  synonym lines are printed whatever the loop over the tree ids does afterwards.
\<close>

theorem emitEntry_synonym_lines:
  assumes "\<forall>raw \<in> set fin. CHR 0x0A \<notin> set (butlast raw)"
    and "e \<in> set (fst (readMeSH fin))"
    and "get e ''UI'' = ui # uis" and "get e ''MH'' = mh # mhs"
  shows "emitEntry parentList e =
           ([''[Term]'', ''id: '' @ ui, ''name: '' @ mh]
              @ map (\<lambda>syn. ''synonym: '' @ [CHR 0x22] @ takeWhile (\<lambda>c. c \<noteq> CHR ''|'') syn
                              @ [CHR 0x22] @ '' EXACT []'')
                    (get e ''ENTRY'')
              @ fst (is_a_loop parentList (get e ''MN'') [])
              @ (case snd (is_a_loop parentList (get e ''MN'') []) of None \<Rightarrow> [[]] | Some _ \<Rightarrow> []),
            snd (is_a_loop parentList (get e ''MN'') []))"
  using emitEntry_stanza [OF assms(3,4), of parentList] synonym_lines_cut [OF assms(1,2)]
  by simp

theorem emitEntry_synonym_lines_witness:
  "list_all (\<lambda>raw. CHR 0x0A \<notin> set (butlast raw))
     [''*NEWRECORD'' @ [CHR 0x0A], ''UI = D000123'' @ [CHR 0x0A],
      ''MH = Example Concept'' @ [CHR 0x0A], ''ENTRY = Foo Bar|T123'' @ [CHR 0x0A],
      ''ENTRY = Baz'' @ [CHR 0x0A]] \<and>
   [(''UI'', [''D000123'']), (''MH'', [''Example Concept'']), (''ENTRY'', [''Foo Bar|T123'', ''Baz''])]
     \<in> set (fst (readMeSH
          [''*NEWRECORD'' @ [CHR 0x0A], ''UI = D000123'' @ [CHR 0x0A],
           ''MH = Example Concept'' @ [CHR 0x0A], ''ENTRY = Foo Bar|T123'' @ [CHR 0x0A],
           ''ENTRY = Baz'' @ [CHR 0x0A]])) \<and>
   emitEntry Map.empty
     [(''UI'', [''D000123'']), (''MH'', [''Example Concept'']), (''ENTRY'', [''Foo Bar|T123'', ''Baz''])]
   = ([''[Term]'', ''id: D000123'', ''name: Example Concept'',
       ''synonym: '' @ [CHR 0x22] @ ''Foo Bar'' @ [CHR 0x22] @ '' EXACT []'',
       ''synonym: '' @ [CHR 0x22] @ ''Baz'' @ [CHR 0x22] @ '' EXACT []'',
       ''''], None)"
proof -
  let ?fin = "[''*NEWRECORD'' @ [CHR 0x0A], ''UI = D000123'' @ [CHR 0x0A],
               ''MH = Example Concept'' @ [CHR 0x0A], ''ENTRY = Foo Bar|T123'' @ [CHR 0x0A],
               ''ENTRY = Baz'' @ [CHR 0x0A]]"
  let ?e = "[(''UI'', [''D000123'']), (''MH'', [''Example Concept'']),
             (''ENTRY'', [''Foo Bar|T123'', ''Baz''])]"
  have a: "\<forall>raw \<in> set ?fin. CHR 0x0A \<notin> set (butlast raw)" by simp
  have a': "list_all (\<lambda>raw. CHR 0x0A \<notin> set (butlast raw)) ?fin" by simp
  have "scan None ?fin = ([?e], None)"
    by (simp add: strip_def isspace_def whitespace_def partition_str_def truthy_def yield_def)
  then have b: "?e \<in> set (fst (readMeSH ?fin))"
    by (simp add: readMeSH_def)
  have c: "get ?e ''UI'' = ''D000123'' # []" by (simp add: get_def)
  have d: "get ?e ''MH'' = ''Example Concept'' # []" by (simp add: get_def)
  have "emitEntry Map.empty ?e
          = ([''[Term]'', ''id: D000123'', ''name: Example Concept'',
              ''synonym: '' @ [CHR 0x22] @ ''Foo Bar'' @ [CHR 0x22] @ '' EXACT []'',
              ''synonym: '' @ [CHR 0x22] @ ''Baz'' @ [CHR 0x22] @ '' EXACT []'',
              ''''], None)"
    using emitEntry_synonym_lines [OF a b c d, of Map.empty] by (simp add: get_def)
  with a' b show ?thesis by blast
qed

section \<open>A complete run\<close>

text \<open>
  Three records on one branch, a concept at \<open>''C06''\<close>, one below it and one below that.
  The 64 lines of the 16 top-level stanzas come first; the lines after them are the
  three stanzas of the records, each with the unique id of its parent.
\<close>

lemma convert_example:
  "drop 64 (fst (convert
     [''*NEWRECORD'' @ [CHR 0x0A],
      ''UI = D004066'' @ [CHR 0x0A],
      ''MH = Digestive System Diseases'' @ [CHR 0x0A],
      ''MN = C06'' @ [CHR 0x0A],
      [CHR 0x0A],
      ''*NEWRECORD'' @ [CHR 0x0A],
      ''UI = D000099'' @ [CHR 0x0A],
      ''MH = Parent Concept'' @ [CHR 0x0A],
      ''MN = C06.198'' @ [CHR 0x0A],
      [CHR 0x0A],
      ''*NEWRECORD'' @ [CHR 0x0A],
      ''UI = D000123'' @ [CHR 0x0A],
      ''MH = Example Concept'' @ [CHR 0x0A],
      ''ENTRY = Example Syn|xyz'' @ [CHR 0x0A],
      ''MN = C06.198.100'' @ [CHR 0x0A]]))
   = [''[Term]'', ''id: D004066'', ''name: Digestive System Diseases'', ''is_a: C'', '''',
      ''[Term]'', ''id: D000099'', ''name: Parent Concept'', ''is_a: D004066'', '''',
      ''[Term]'', ''id: D000123'', ''name: Example Concept'',
      ''synonym: '' @ [CHR 0x22] @ ''Example Syn'' @ [CHR 0x22] @ '' EXACT []'',
      ''is_a: D000099'', '''']"
  by code_simp

end
